theory Spec2Isabelle
  imports Main
begin

section \<open>Marketplace crawler: shallow embedding of \<^verbatim>\<open>src/src/crawler.py\<close>\<close>

text \<open>
  Strings are \<^typ>\<open>string\<close>: a character is a Unicode code point below 256, and
  the character classes of Python are written out for all of these. Text with a code
  point from 256 on is outside the type. Exceptions are
  values of \<open>exn\<close>, and a function that can raise returns \<open>exn + 'a\<close>
  with \<open>Inl\<close> for the exception. A local variable that shares its name with a
  field of a record carries a prime.
\<close>

subsection \<open>Python string operations used by the crawler\<close>

definition is_space :: "char \<Rightarrow> bool" where
  \<comment> \<open>what \<^verbatim>\<open>str.strip\<close> removes: tab to CR, FS to space, U+0085 (next line), U+00A0 (no-break space)\<close>
  "is_space c =
     (let n = (of_char c :: nat)
      in (9 \<le> n \<and> n \<le> 13) \<or> (28 \<le> n \<and> n \<le> 32) \<or> n = 133 \<or> n = 160)"

definition is_upper :: "char \<Rightarrow> bool" where
  \<comment> \<open>the upper-case letters: A to Z, U+00C0 to U+00D6, U+00D8 to U+00DE\<close>
  "is_upper c =
     (let n = (of_char c :: nat)
      in (65 \<le> n \<and> n \<le> 90) \<or> (192 \<le> n \<and> n \<le> 214) \<or> (216 \<le> n \<and> n \<le> 222))"

definition is_lower :: "char \<Rightarrow> bool" where
  \<comment> \<open>the lower-case letters: a to z, U+00AA, U+00B5, U+00BA, U+00DF to U+00F6, U+00F8 to U+00FF;
      no character below 256 is title-case\<close>
  "is_lower c =
     (let n = (of_char c :: nat)
      in (97 \<le> n \<and> n \<le> 122) \<or> n = 170 \<or> n = 181 \<or> n = 186 \<or>
         (223 \<le> n \<and> n \<le> 246) \<or> (248 \<le> n \<and> n \<le> 255))"

definition strip :: "string \<Rightarrow> string" where
  \<comment> \<open>\<^verbatim>\<open>s.strip()\<close>\<close>
  "strip s = rev (dropWhile is_space (rev (dropWhile is_space s)))"

definition isupper :: "string \<Rightarrow> bool" where
  \<comment> \<open>\<^verbatim>\<open>s.isupper()\<close>: at least one upper-case character and no lower-case or title-case one\<close>
  "isupper s = (list_ex is_upper s \<and> \<not> list_ex is_lower s)"

definition starts_with :: "string \<Rightarrow> string \<Rightarrow> bool" where
  "starts_with sub s = (take (length sub) s = sub)"

fun str_contains :: "string \<Rightarrow> string \<Rightarrow> bool" where
  \<comment> \<open>\<^verbatim>\<open>sub in s\<close>\<close>
  "str_contains sub [] = (sub = [])"
| "str_contains sub (c # cs) = (starts_with sub (c # cs) \<or> str_contains sub cs)"

definition split1 :: "char \<Rightarrow> string \<Rightarrow> string list" where
  \<comment> \<open>\<^verbatim>\<open>s.split(sep, 1)\<close> for a one-character separator\<close>
  "split1 sep s =
     (if sep \<in> set s
      then [takeWhile (\<lambda>c. c \<noteq> sep) s, tl (dropWhile (\<lambda>c. c \<noteq> sep) s)]
      else [s])"

definition join :: "string \<Rightarrow> string list \<Rightarrow> string" where
  \<comment> \<open>\<^verbatim>\<open>sep.join(xs)\<close>\<close>
  "join sep xs = (case xs of [] \<Rightarrow> [] | y # ys \<Rightarrow> y @ concat (map (\<lambda>z. sep @ z) ys))"

subsection \<open>Exceptions\<close>

text \<open>
  An exception carries the text of \<^verbatim>\<open>str(e)\<close>. The handlers of the crawler tell
  \<^verbatim>\<open>requests.RequestException\<close> from every other exception, so these are the cases.
  The texts of the \<^verbatim>\<open>AttributeError\<close> and of the \<^verbatim>\<open>TypeError\<close> that Python builds are
  written without their quotation marks.
\<close>

datatype exn =
    RequestException string   \<comment> \<open>\<^verbatim>\<open>requests.RequestException\<close> and its subclasses, with \<^verbatim>\<open>str(e)\<close>\<close>
  | AttributeError string
  | TypeError string
  | Exception string          \<comment> \<open>any other exception\<close>

fun exn_str :: "exn \<Rightarrow> string" where
  "exn_str (RequestException m) = m"
| "exn_str (AttributeError m) = m"
| "exn_str (TypeError m) = m"
| "exn_str (Exception m) = m"

subsection \<open>Constants\<close>

definition MARKETPLACE_API_URL :: string where
  "MARKETPLACE_API_URL = ''https://www.dedaluslabs.ai/api/marketplace''"

definition MARKETPLACE_BASE_URL :: string where
  "MARKETPLACE_BASE_URL = ''https://www.dedaluslabs.ai/marketplace''"

definition GITHUB_BASE_URL :: string where
  "GITHUB_BASE_URL = ''https://github.com''"

subsection \<open>Record model\<close>

record ToolInfo =
  tool_name :: string
  tool_description :: "string option"

record ServerInfo =
  name :: string
  slug :: string
  publisher :: string
  description :: "string option"
  github_url :: "string option"
  marketplace_url :: string
  language :: "string option"
  heat_score :: "int option"
  upvote_count :: "int option"
  tools :: "ToolInfo list"
  auth_required :: "string option"

record ScanResult =
  total_servers :: int
  servers :: "ServerInfo list"
  errors :: "string list"

subsection \<open>Raw listing records\<close>

text \<open>
  A raw record is a JSON object. The model covers the objects of the listing schema:
  every key is absent, \<^verbatim>\<open>null\<close>, or holds a value of its schema type (a string
  for \<^verbatim>\<open>slug\<close>, \<^verbatim>\<open>git_slug\<close>, \<^verbatim>\<open>description\<close>, \<^verbatim>\<open>subtitle\<close> and
  \<^verbatim>\<open>tags.language\<close>, an integer for \<^verbatim>\<open>heat_score\<close> and \<^verbatim>\<open>upvote_count\<close>, a
  boolean for the flags of \<^verbatim>\<open>tags.auth\<close>, a mapping for \<^verbatim>\<open>tags\<close> and
  \<^verbatim>\<open>tags.auth\<close>). Keys that the normalizer does not read are left out. On such
  records the validation of the \<^verbatim>\<open>ServerInfo\<close> model accepts every field.
\<close>

datatype 'a field = Absent | Null | Val 'a

definition get :: "'a field \<Rightarrow> 'a option" where
  \<comment> \<open>\<^verbatim>\<open>d.get(key)\<close>: Python's \<^verbatim>\<open>None\<close> for an absent key and for a \<^verbatim>\<open>null\<close> value\<close>
  "get f = (case f of Val v \<Rightarrow> Some v | _ \<Rightarrow> None)"

definition get_default :: "'a field \<Rightarrow> 'a \<Rightarrow> 'a option" where
  \<comment> \<open>\<^verbatim>\<open>d.get(key, default)\<close>: the default replaces an absent key only\<close>
  "get_default f d = (case f of Absent \<Rightarrow> Some d | Null \<Rightarrow> None | Val v \<Rightarrow> Some v)"

record raw_auth =
  api_key :: "bool field"
  oauth :: "bool field"
  none :: "bool field"

record raw_tags =
  raw_language :: "string field"
  auth :: "raw_auth field"

record raw_repo =
  raw_slug :: "string field"
  git_slug :: "string field"
  raw_description :: "string field"
  subtitle :: "string field"
  raw_heat_score :: "int field"
  raw_upvote_count :: "int field"
  tags :: "raw_tags field"

definition empty_auth :: raw_auth where
  "empty_auth = \<lparr>api_key = Absent, oauth = Absent, none = Absent\<rparr>"

definition empty_tags :: raw_tags where
  "empty_tags = \<lparr>raw_language = Absent, auth = Absent\<rparr>"

definition truthy_str :: "string option \<Rightarrow> bool" where
  "truthy_str v = (case v of Some s \<Rightarrow> s \<noteq> [] | None \<Rightarrow> False)"

definition truthy_bool :: "bool option \<Rightarrow> bool" where
  "truthy_bool v = (case v of Some b \<Rightarrow> b | None \<Rightarrow> False)"

subsection \<open>Entry normalizer\<close>

definition parse_api_server :: "raw_repo \<Rightarrow> exn + ServerInfo" where
  "parse_api_server repo =
     (case get_default (raw_slug repo) [] of
        None \<Rightarrow> Inl (AttributeError ''NoneType object has no attribute split'')
      | Some slug' \<Rightarrow>
          let parts = split1 (CHR ''/'') slug';
              publisher' = (if length parts > 0 then parts ! 0 else ''unknown'');
              name' = (if length parts > 1 then parts ! 1 else slug');
              git_slug' = get (git_slug repo);
              github_url' = (case git_slug' of
                               Some g \<Rightarrow> (if g \<noteq> [] then Some (GITHUB_BASE_URL @ ''/'' @ g) else None)
                             | None \<Rightarrow> None);
              tags' = (case get (tags repo) of Some t \<Rightarrow> t | None \<Rightarrow> empty_tags);
              auth_info = (case get (auth tags') of Some a \<Rightarrow> a | None \<Rightarrow> empty_auth);
              auth_required' =
                (if truthy_bool (get (api_key auth_info)) then Some ''api_key''
                 else if truthy_bool (get (oauth auth_info)) then Some ''oauth''
                 else if truthy_bool (get (none auth_info)) then Some ''none''
                 else None)
          in Inr \<lparr>name = name',
                  slug = slug',
                  publisher = publisher',
                  description = (if truthy_str (get (raw_description repo))
                                 then get (raw_description repo) else get (subtitle repo)),
                  github_url = github_url',
                  marketplace_url = MARKETPLACE_BASE_URL @ ''/'' @ slug',
                  language = get (raw_language tags'),
                  heat_score = get (raw_heat_score repo),
                  upvote_count = get (raw_upvote_count repo),
                  tools = [],
                  auth_required = auth_required'\<rparr>)"

subsection \<open>Parsed markup\<close>

text \<open>
  \<^verbatim>\<open>BeautifulSoup(html, "lxml")\<close> is a library call: the parser is lenient and
  builds a tree for every text. The extractor is modelled on that tree, and the parser
  is a parameter \<open>bs\<close> of the functions that call it. \<open>Text\<close> is a string that
  \<^verbatim>\<open>get_text\<close> yields, \<open>Other\<close> one it skips (a comment, a doctype, the content of a
  script), and \<open>Elem\<close> a tag with its name, the tokens of its \<^verbatim>\<open>class\<close> attribute
  (\<open>None\<close> without the attribute) and its children.
\<close>

datatype node = Text string | Other string | Elem string "string list option" "node list"

type_synonym soup = "node list"

fun texts :: "node \<Rightarrow> string list" where
  "texts (Text s) = [s]"
| "texts (Other s) = []"
| "texts (Elem nm cls kids) = concat (map texts kids)"

definition get_text_strip :: "node \<Rightarrow> string" where
  \<comment> \<open>\<^verbatim>\<open>tag.get_text(strip=True)\<close>: every string stripped, the empty ones dropped, joined\<close>
  "get_text_strip n = concat (filter (\<lambda>s. s \<noteq> []) (map strip (texts n)))"

definition class_filter :: "string option \<Rightarrow> bool" where
  \<comment> \<open>\<^verbatim>\<open>lambda c: c and "font-semibold" in c and "text-lg" in c\<close>\<close>
  "class_filter c =
     (case c of None \<Rightarrow> False
      | Some s \<Rightarrow> s \<noteq> [] \<and> str_contains ''font-semibold'' s \<and> str_contains ''text-lg'' s)"

definition matches_class :: "string list option \<Rightarrow> bool" where
  \<comment> \<open>how \<^verbatim>\<open>find_all(class_=f)\<close> applies \<open>f\<close>: to each token, then to the tokens joined by a space\<close>
  "matches_class cls =
     (case cls of None \<Rightarrow> class_filter None
      | Some toks \<Rightarrow> list_ex (\<lambda>t. class_filter (Some t)) toks \<or> class_filter (Some (join '' '' toks)))"

fun find_all_node :: "node \<Rightarrow> node list \<Rightarrow> (node \<times> node list) list"
  and find_all :: "node list \<Rightarrow> (node \<times> node list) list" where
  \<comment> \<open>\<^verbatim>\<open>soup.find_all("h4", class_=...)\<close> in document order, each match with its next siblings\<close>
  "find_all_node (Text s) sibs = []"
| "find_all_node (Other s) sibs = []"
| "find_all_node (Elem nm cls kids) sibs =
     (if nm = ''h4'' \<and> matches_class cls then [(Elem nm cls kids, sibs)] else []) @ find_all kids"
| "find_all [] = []"
| "find_all (n # ns) = find_all_node n ns @ find_all ns"

definition is_tag :: "string \<Rightarrow> node \<Rightarrow> bool" where
  "is_tag tg n = (case n of Elem nm cls kids \<Rightarrow> nm = tg | _ \<Rightarrow> False)"

definition find_next_sibling :: "string \<Rightarrow> node list \<Rightarrow> node option" where
  \<comment> \<open>\<^verbatim>\<open>tag.find_next_sibling(name)\<close> over the siblings after the tag\<close>
  "find_next_sibling tg sibs = List.find (is_tag tg) sibs"

subsection \<open>Markup extractor\<close>

definition excluded_names :: "string set" where
  "excluded_names =
     {''Tools'', ''Resources'', ''Prompts'', ''Product'', ''Company'', ''Legal'',
      ''Documentation'', ''Support'', ''Contact'', ''About'', ''Blog'', ''Pricing''}"

fun parse_cards :: "(node \<times> node list) list \<Rightarrow> ToolInfo list" where
  \<comment> \<open>the loop \<^verbatim>\<open>for h4 in tool_cards\<close>\<close>
  "parse_cards [] = []"
| "parse_cards ((h4, sibs) # rest) =
     (let tool_name' = get_text_strip h4 in
      if tool_name' = [] \<or> tool_name' \<in> excluded_names then parse_cards rest
      else if isupper tool_name' then parse_cards rest
      else
        let description' =
              (case find_next_sibling ''p'' sibs of
                 Some next_p \<Rightarrow> Some (get_text_strip next_p)
               | None \<Rightarrow> None)
        in \<lparr>tool_name = tool_name', tool_description = description'\<rparr> # parse_cards rest)"

definition parse_tools_from_html :: "(string \<Rightarrow> soup) \<Rightarrow> string \<Rightarrow> ToolInfo list" where
  \<comment> \<open>\<open>bs\<close> is the parser, \<^verbatim>\<open>BeautifulSoup(_, "lxml")\<close>\<close>
  "parse_tools_from_html bs html = parse_cards (find_all (bs html))"

subsection \<open>Network\<close>

text \<open>
  The network is a parameter: a session maps a URL to what \<^verbatim>\<open>session.get\<close> does for
  it, an exception or a response. A response carries its status code, its body text,
  what \<^verbatim>\<open>json()\<close> gives (a listing or an exception) and the text of the
  \<^verbatim>\<open>HTTPError\<close> that \<^verbatim>\<open>raise_for_status\<close> builds for it.
\<close>

record listing =
  repositories :: "raw_repo list field"

record response =
  status_code :: nat
  resp_text :: string
  json_data :: "exn + listing"
  error_text :: string

type_synonym session = "string \<Rightarrow> exn + response"

definition raise_for_status :: "response \<Rightarrow> exn option" where
  \<comment> \<open>\<^verbatim>\<open>requests\<close> raises \<^verbatim>\<open>HTTPError\<close> for a 4xx or 5xx status\<close>
  "raise_for_status r =
     (if 400 \<le> status_code r \<and> status_code r < 600
      then Some (RequestException (error_text r)) else None)"

definition fetch_api_data :: "session \<Rightarrow> exn + listing" where
  "fetch_api_data session =
     (case session MARKETPLACE_API_URL of
        Inl e \<Rightarrow> Inl e
      | Inr r \<Rightarrow> (case raise_for_status r of Some e \<Rightarrow> Inl e | None \<Rightarrow> json_data r))"

definition fetch_detail_page :: "session \<Rightarrow> string \<Rightarrow> exn + string option" where
  \<comment> \<open>\<^verbatim>\<open>except requests.RequestException\<close> turns that exception into \<^verbatim>\<open>None\<close>; another one propagates\<close>
  "fetch_detail_page session url =
     (case (case session url of
              Inl e \<Rightarrow> Inl e
            | Inr r \<Rightarrow> (case raise_for_status r of Some e \<Rightarrow> Inl e | None \<Rightarrow> Inr (resp_text r))) of
        Inl (RequestException m) \<Rightarrow> Inr None
      | Inl e \<Rightarrow> Inl e
      | Inr html \<Rightarrow> Inr (Some html))"

subsection \<open>Enrichment orchestrator\<close>

text \<open>
  Every entry gets one task. A task reads its own entry and the session only, so its
  result does not depend on when it runs; the bound \<^verbatim>\<open>max_workers\<close> on the tasks that
  run at a time is left out. The order in which the tasks complete is not determined by
  the program: it is the parameter \<open>order\<close>, a list of positions of the entry
  sequence. The entries are distinct objects, so an entry is identified by its position
  and \<^verbatim>\<open>server.tools = tools\<close> is an update of the sequence at that position. Logging
  is left out.
\<close>

definition fetch_tools ::
  "(string \<Rightarrow> soup) \<Rightarrow> session \<Rightarrow> ServerInfo \<Rightarrow> ToolInfo list option \<times> string option" where
  \<comment> \<open>the task of one entry; the entry itself, first component of the source's tuple, is its index\<close>
  "fetch_tools bs session server =
     (case fetch_detail_page session (marketplace_url server) of
        Inr (Some html) \<Rightarrow>
          (if html \<noteq> [] then (Some (parse_tools_from_html bs html), None)
           else (None, Some (''Failed to fetch '' @ marketplace_url server)))
      | Inr None \<Rightarrow> (None, Some (''Failed to fetch '' @ marketplace_url server))
      | Inl e \<Rightarrow> (None, Some (''Error processing '' @ slug server @ '': '' @ exn_str e)))"

fun collect ::
  "(nat \<times> ToolInfo list option \<times> string option) list \<Rightarrow> ServerInfo list \<Rightarrow> string list
   \<Rightarrow> ServerInfo list \<times> string list" where
  \<comment> \<open>the loop \<^verbatim>\<open>for future in as_completed(futures)\<close> over the results in completion order\<close>
  "collect [] servers' errors' = (servers', errors')"
| "collect ((i, tools', error) # rest) servers' errors' =
     (case (if truthy_str error then error else None) of
        Some e \<Rightarrow> collect rest servers' (errors' @ [e])
      | None \<Rightarrow>
          (case tools' of
             Some ts \<Rightarrow> collect rest (servers'[i := (servers' ! i)\<lparr>tools := ts\<rparr>]) errors'
           | None \<Rightarrow> collect rest servers' errors'))"

definition enrich_with_tools ::
  "(string \<Rightarrow> soup) \<Rightarrow> session \<Rightarrow> ServerInfo list \<Rightarrow> nat list \<Rightarrow> ServerInfo list \<times> string list" where
  \<comment> \<open>\<open>order\<close> lists the positions of the entries in the order their tasks complete\<close>
  "enrich_with_tools bs session servers' order =
     collect (map (\<lambda>i. (i, fetch_tools bs session (servers' ! i))) order) servers' []"

subsection \<open>Scan orchestrator\<close>

text \<open>
  The session is a parameter: the branch for \<^verbatim>\<open>session is None\<close> only builds one and
  sets its headers. The parameters \<open>bs\<close> and \<open>order\<close> are those of the enrichment.
\<close>

fun parse_all :: "raw_repo list \<Rightarrow> exn + ServerInfo list" where
  \<comment> \<open>\<^verbatim>\<open>[_parse_api_server(repo) for repo in repositories]\<close>: the first exception ends it\<close>
  "parse_all [] = Inr []"
| "parse_all (repo # rest) =
     (case parse_api_server repo of
        Inl e \<Rightarrow> Inl e
      | Inr server \<Rightarrow> (case parse_all rest of Inl e \<Rightarrow> Inl e | Inr ss \<Rightarrow> Inr (server # ss)))"

definition scan_marketplace_sync ::
  "(string \<Rightarrow> soup) \<Rightarrow> session \<Rightarrow> bool \<Rightarrow> nat list \<Rightarrow> exn + ScanResult" where
  "scan_marketplace_sync bs session include_tools order =
     (case fetch_api_data session of
        Inl (RequestException m) \<Rightarrow>
          Inr \<lparr>total_servers = 0, servers = [],
               errors = [''Failed to fetch marketplace API: '' @ m]\<rparr>
      | Inl e \<Rightarrow> Inl e
      | Inr data \<Rightarrow>
          (case get_default (repositories data) [] of
             None \<Rightarrow> Inl (TypeError ''NoneType object is not iterable'')
           | Some repos \<Rightarrow>
               (case parse_all repos of
                  Inl e \<Rightarrow> Inl e
                | Inr parsed \<Rightarrow>
                    let (servers', tool_errors) =
                          (if include_tools \<and> parsed \<noteq> []
                           then enrich_with_tools bs session parsed order
                           else (parsed, []))
                    in Inr \<lparr>total_servers = int (length servers'), servers = servers',
                            errors = [] @ tool_errors\<rparr>)))"


section \<open>Notions used to state the properties\<close>

definition auth_flag :: "(raw_auth \<Rightarrow> bool field) \<Rightarrow> raw_repo \<Rightarrow> bool" where
  \<comment> \<open>the flag \<open>sel\<close> of the nested \<^verbatim>\<open>tags.auth\<close> mapping is present and true\<close>
  "auth_flag sel repo =
     (case tags repo of
        Val t \<Rightarrow> (case auth t of Val a \<Rightarrow> sel a = Val True | _ \<Rightarrow> False)
      | _ \<Rightarrow> False)"

definition auth_info_of :: "raw_repo \<Rightarrow> raw_auth" where
  \<comment> \<open>the value of the normalizer's local \<^verbatim>\<open>auth_info\<close>\<close>
  "auth_info_of repo =
     (case get (auth (case get (tags repo) of Some t \<Rightarrow> t | None \<Rightarrow> empty_tags)) of
        Some a \<Rightarrow> a | None \<Rightarrow> empty_auth)"

definition accepted_name :: "string \<Rightarrow> bool" where
  \<comment> \<open>non-empty, not an excluded label, not upper-case in the sense of \<^verbatim>\<open>str.isupper\<close>\<close>
  "accepted_name n = (n \<noteq> [] \<and> n \<notin> excluded_names \<and> \<not> isupper n)"

definition carries :: "string \<Rightarrow> string list option \<Rightarrow> bool" where
  \<comment> \<open>the marker occurs in the text of the \<^verbatim>\<open>class\<close> attribute\<close>
  "carries marker cls =
     (case cls of None \<Rightarrow> False | Some toks \<Rightarrow> str_contains marker (join '' '' toks))"

definition is_tool_heading :: "node \<Rightarrow> bool" where
  \<comment> \<open>an \<^verbatim>\<open>h4\<close> heading that carries both class markers\<close>
  "is_tool_heading n =
     (case n of
        Elem nm cls kids \<Rightarrow> nm = ''h4'' \<and> carries ''text-lg'' cls \<and> carries ''font-semibold'' cls
      | _ \<Rightarrow> False)"

fun nodes :: "node \<Rightarrow> node list" where
  \<comment> \<open>a node and its descendants in document order\<close>
  "nodes (Elem nm cls kids) = Elem nm cls kids # concat (map nodes kids)"
| "nodes n = [n]"

definition all_nodes :: "soup \<Rightarrow> node list" where
  "all_nodes doc = concat (map nodes doc)"

fun contexts :: "node list \<Rightarrow> (node \<times> node list) list" where
  \<comment> \<open>every node of a forest in document order, each with the siblings that follow it
      under the same parent\<close>
  "contexts [] = []"
| "contexts (n # ns) =
     (n, ns) # (case n of Elem nm cls kids \<Rightarrow> contexts kids | _ \<Rightarrow> []) @ contexts ns"

inductive occurs :: "node list \<Rightarrow> node \<Rightarrow> node list \<Rightarrow> bool" where
  \<comment> \<open>\<open>occurs doc n sibs\<close>: the node \<open>n\<close> stands in the forest \<open>doc\<close>, and \<open>sibs\<close> are the
      children of its parent after it\<close>
  here: "occurs (pre @ n # sibs) n sibs"
| inside: "occurs kids n sibs \<Longrightarrow> occurs (pre @ Elem nm cls kids # post) n sibs"

definition first_paragraph :: "node list \<Rightarrow> string option" where
  \<comment> \<open>the text of the first \<^verbatim>\<open>p\<close> element among the nodes, if there is one\<close>
  "first_paragraph sibs =
     (case filter (is_tag ''p'') sibs of [] \<Rightarrow> None | p # ps \<Rightarrow> Some (get_text_strip p))"

definition task_error :: "nat \<times> ToolInfo list option \<times> string option \<Rightarrow> string option" where
  \<comment> \<open>the string that the collecting loop appends for one result\<close>
  "task_error r = (case r of (i, ts, error) \<Rightarrow> if truthy_str error then error else None)"

definition task_errors ::
  "(string \<Rightarrow> soup) \<Rightarrow> session \<Rightarrow> ServerInfo list \<Rightarrow> nat list \<Rightarrow> string list" where
  \<comment> \<open>the error strings of the tasks of the entries at the positions \<open>xs\<close>\<close>
  "task_errors bs session servers' xs =
     List.map_filter (\<lambda>i. snd (fetch_tools bs session (servers' ! i))) xs"

section \<open>Sample inputs\<close>

definition bare_repo :: raw_repo where
  \<comment> \<open>the record \<^verbatim>\<open>{}\<close>\<close>
  "bare_repo = \<lparr>raw_slug = Absent, git_slug = Absent, raw_description = Absent,
      subtitle = Absent, raw_heat_score = Absent, raw_upvote_count = Absent, tags = Absent\<rparr>"

definition solo_repo :: raw_repo where
  \<comment> \<open>the record \<^verbatim>\<open>{"slug": "solo"}\<close>\<close>
  "solo_repo = bare_repo\<lparr>raw_slug := Val ''solo''\<rparr>"

definition null_slug_repo :: raw_repo where
  \<comment> \<open>the record \<^verbatim>\<open>{"slug": null}\<close>\<close>
  "null_slug_repo = bare_repo\<lparr>raw_slug := Null\<rparr>"

definition repo_one :: raw_repo where
  "repo_one = \<lparr>raw_slug = Val ''testpub/test-server'', git_slug = Val ''testpub/test-server-repo'',
      raw_description = Val ''A test server'', subtitle = Val ''A test MCP server'',
      raw_heat_score = Val 85, raw_upvote_count = Val 10,
      tags = Val \<lparr>raw_language = Val ''python'',
                  auth = Val \<lparr>api_key = Val True, oauth = Val False, none = Val False\<rparr>\<rparr>\<rparr>"

definition repo_two :: raw_repo where
  "repo_two = \<lparr>raw_slug = Val ''anotherpub/another-server'', git_slug = Val ''anotherpub/another-repo'',
      raw_description = Null, subtitle = Val ''Another server subtitle'',
      raw_heat_score = Val 50, raw_upvote_count = Val 5,
      tags = Val \<lparr>raw_language = Val ''typescript'',
                  auth = Val \<lparr>api_key = Val False, oauth = Val False, none = Val True\<rparr>\<rparr>\<rparr>"

definition repo_with_auth :: "raw_auth \<Rightarrow> raw_repo" where
  "repo_with_auth a =
     bare_repo\<lparr>raw_slug := Val ''pub/srv'', tags := Val \<lparr>raw_language = Absent, auth = Val a\<rparr>\<rparr>"

definition entry :: "string \<Rightarrow> ServerInfo" where
  \<comment> \<open>a catalog entry with the slug \<open>s\<close> and no capabilities yet\<close>
  "entry s = \<lparr>name = s, slug = s, publisher = s, description = None, github_url = None,
      marketplace_url = ''site/'' @ s, language = None, heat_score = None,
      upvote_count = None, tools = [], auth_required = None\<rparr>"

definition tool_page :: soup where
  \<comment> \<open>the detail page of the tests, with two tool cards and a footer\<close>
  "tool_page =
     [Other ''DOCTYPE html'',
      Elem ''html'' None
        [Elem ''body'' None
           [Elem ''h2'' (Some [''text-2xl'', ''font-bold'']) [Text ''test-server''],
            Elem ''div'' (Some [''space-y-3''])
              [Elem ''div'' None
                 [Elem ''h4'' (Some [''text-lg'', ''font-semibold'', ''break-words''])
                    [Text ''test_tool_one''],
                  Text ''  '',
                  Elem ''p'' (Some [''text-sm'']) [Text ''  First test tool description.  '']],
               Elem ''div'' None
                 [Elem ''h4'' (Some [''text-lg'', ''font-semibold'', ''break-words''])
                    [Text ''test_tool_two''],
                  Elem ''p'' (Some [''text-sm'']) [Text ''Second test tool description.'']]],
            Elem ''footer'' None
              [Elem ''h4'' (Some [''mb-4'', ''text-sm'', ''font-semibold'', ''uppercase''])
                 [Text ''Product'']]]]]"

definition labels_page :: soup where
  \<comment> \<open>a page whose matching headings are all excluded labels\<close>
  "labels_page =
     [Elem ''body'' None
        [Elem ''h4'' (Some [''text-lg'', ''font-semibold'']) [Text ''Tools''],
         Elem ''p'' None [Text ''All tools''],
         Elem ''h4'' (Some [''font-semibold'', ''text-lg'']) [Text '' Product '']]]"

definition other_level_page :: soup where
  \<comment> \<open>a heading of another level, \<^verbatim>\<open>h3\<close>, with both class markers\<close>
  "other_level_page =
     [Elem ''body'' None
        [Elem ''h3'' (Some [''text-lg'', ''font-semibold'']) [Text ''my_tool''],
         Elem ''p'' None [Text ''About my tool'']]]"

definition later_paragraph_page :: soup where
  \<comment> \<open>a heading followed by a \<^verbatim>\<open>div\<close> and only then by a paragraph\<close>
  "later_paragraph_page =
     [Elem ''div'' None
        [Elem ''h4'' (Some [''text-lg'', ''font-semibold'']) [Text ''my_tool''],
         Elem ''div'' None [Text ''badge''],
         Elem ''p'' None [Text ''Later paragraph'']]]"

definition fixed_parser :: "soup \<Rightarrow> string \<Rightarrow> soup" where
  \<comment> \<open>a parser that builds the tree \<open>doc\<close>\<close>
  "fixed_parser doc html = doc"

definition mocker :: "(string \<times> (exn + response)) list \<Rightarrow> session" where
  \<comment> \<open>the \<^verbatim>\<open>Mocker\<close> of \<^verbatim>\<open>requests_mock.py\<close>: registered URLs, any other one raises\<close>
  "mocker registry url =
     (case map_of registry url of
        Some answer \<Rightarrow> answer
      | None \<Rightarrow> Inl (RequestException (''No mock registered for '' @ url)))"

definition page_response :: "nat \<Rightarrow> string \<Rightarrow> response" where
  "page_response status body =
     \<lparr>status_code = status, resp_text = body,
      json_data = Inl (Exception ''No JSON data for this response''), error_text = ''Error''\<rparr>"

definition listing_response :: "nat \<Rightarrow> raw_repo list \<Rightarrow> response" where
  "listing_response status repos =
     \<lparr>status_code = status, resp_text = [],
      json_data = Inr \<lparr>repositories = Val repos\<rparr>, error_text = ''Error''\<rparr>"

definition one_down_session :: session where
  \<comment> \<open>the page of \<open>entry ''a''\<close> is served, the one of \<open>entry ''b''\<close> answers 404\<close>
  "one_down_session =
     mocker [(''site/a'', Inr (page_response 200 ''<html>'')),
             (''site/b'', Inr (page_response 404 []))]"

definition blank_session :: session where
  \<comment> \<open>the page of \<open>entry ''b''\<close> is served with an empty body\<close>
  "blank_session =
     mocker [(''site/a'', Inr (page_response 200 ''<html>'')),
             (''site/b'', Inr (page_response 200 []))]"

definition session_300 :: session where
  \<comment> \<open>the listing endpoint answers 300 with the body \<^verbatim>\<open>{"repositories": []}\<close>\<close>
  "session_300 = mocker [(MARKETPLACE_API_URL, Inr (listing_response 300 []))]"

definition session_500 :: session where
  "session_500 = mocker [(MARKETPLACE_API_URL, Inr (listing_response 500 []))]"

definition listing_session :: session where
  "listing_session =
     mocker [(MARKETPLACE_API_URL, Inr (listing_response 200 [repo_one, repo_two]))]"

section \<open>Properties\<close>

lemmas normalizer_eval =
  parse_api_server_def get_default_def split1_def Let_def MARKETPLACE_BASE_URL_def
  GITHUB_BASE_URL_def empty_tags_def empty_auth_def

lemmas markup_eval =
  parse_tools_from_html_def matches_class_def class_filter_def join_def
  starts_with_def get_text_strip_def strip_def is_space_def isupper_def is_upper_def
  is_lower_def excluded_names_def find_next_sibling_def is_tag_def

lemmas network_eval =
  raise_for_status_def fetch_api_data_def fetch_detail_page_def MARKETPLACE_API_URL_def

subsection \<open>Strings and fields\<close>

lemma str_contains_iff: "str_contains sub s \<longleftrightarrow> (\<exists>a b. s = a @ sub @ b)"
proof (induction s)
  case Nil
  then show ?case by auto
next
  case (Cons c cs)
  have "starts_with sub (c # cs) \<longleftrightarrow> (\<exists>b. c # cs = sub @ b)"
    unfolding starts_with_def by (metis append_eq_conv_conj append_take_drop_id)
  moreover have "(\<exists>a b. c # cs = a @ sub @ b) \<longleftrightarrow>
                 (\<exists>b. c # cs = sub @ b) \<or> (\<exists>a b. cs = a @ sub @ b)"
  proof
    assume "\<exists>a b. c # cs = a @ sub @ b"
    then obtain a b where ab: "c # cs = a @ sub @ b" by blast
    show "(\<exists>b. c # cs = sub @ b) \<or> (\<exists>a b. cs = a @ sub @ b)"
    proof (cases a)
      case Nil
      with ab show ?thesis by auto
    next
      case (Cons x a')
      with ab have "cs = a' @ sub @ b" by simp
      then show ?thesis by blast
    qed
  next
    assume "(\<exists>b. c # cs = sub @ b) \<or> (\<exists>a b. cs = a @ sub @ b)"
    then show "\<exists>a b. c # cs = a @ sub @ b"
    proof
      assume "\<exists>b. c # cs = sub @ b"
      then obtain b where "c # cs = [] @ sub @ b" by auto
      then show ?thesis by blast
    next
      assume "\<exists>a b. cs = a @ sub @ b"
      then obtain a b where "cs = a @ sub @ b" by blast
      then have "c # cs = (c # a) @ sub @ b" by simp
      then show ?thesis by blast
    qed
  qed
  ultimately show ?case using Cons.IH by simp
qed

lemma str_contains_prefix: "str_contains sub (sub @ r)"
  unfolding str_contains_iff by (rule exI [of _ "[]"]) auto

lemma split1_sep:
  assumes "sep \<in> set s"
  shows "takeWhile (\<lambda>c. c \<noteq> sep) s @ sep # tl (dropWhile (\<lambda>c. c \<noteq> sep) s) = s"
proof -
  let ?d = "dropWhile (\<lambda>c. c \<noteq> sep) s"
  from assms have ne: "?d \<noteq> []" by simp
  then have "hd ?d = sep" using hd_dropWhile [of "\<lambda>c. c \<noteq> sep" s] by simp
  with ne have "?d = sep # tl ?d" by (metis list.collapse)
  then have "takeWhile (\<lambda>c. c \<noteq> sep) s @ sep # tl ?d = takeWhile (\<lambda>c. c \<noteq> sep) s @ ?d"
    by simp
  then show ?thesis by simp
qed

lemma get_simps [simp]: "get Absent = None" "get Null = None" "get (Val v) = Some v"
  by (simp_all add: get_def)

lemma truthy_bool_get: "truthy_bool (get f) = (f = Val True)"
  by (cases f) (auto simp: truthy_bool_def)

lemma truthy_bool_None [simp]: "\<not> truthy_bool None"
  by (simp add: truthy_bool_def)

lemma truthy_str_simps [simp]: "\<not> truthy_str None" "truthy_str (Some s) = (s \<noteq> [])"
  by (simp_all add: truthy_str_def)

subsection \<open>Entry normalizer\<close>

lemma flag_auth_info:
  assumes "sel empty_auth = Absent"
  shows "truthy_bool (get (sel (auth_info_of repo))) = auth_flag sel repo"
proof (cases "tags repo")
  case (Val t)
  then show ?thesis using assms
    by (cases "auth t") (simp_all add: auth_info_of_def auth_flag_def truthy_bool_get)
qed (simp_all add: auth_info_of_def auth_flag_def empty_tags_def assms)

lemma parse_auth_required:
  assumes "parse_api_server repo = Inr e"
  shows "auth_required e =
     (if auth_flag api_key repo then Some ''api_key''
      else if auth_flag oauth repo then Some ''oauth''
      else if auth_flag none repo then Some ''none'' else None)"
proof -
  have "auth_required e =
     (if truthy_bool (get (api_key (auth_info_of repo))) then Some ''api_key''
      else if truthy_bool (get (oauth (auth_info_of repo))) then Some ''oauth''
      else if truthy_bool (get (none (auth_info_of repo))) then Some ''none'' else None)"
    using assms
    by (cases "get_default (raw_slug repo) []")
       (auto simp: parse_api_server_def Let_def auth_info_of_def)
  then show ?thesis
    by (simp add: flag_auth_info empty_auth_def)
qed

lemma auth_flag_absent:
  "tags repo = Absent \<Longrightarrow> \<not> auth_flag sel repo"
  "tags repo = Null \<Longrightarrow> \<not> auth_flag sel repo"
  "tags repo = Val t \<Longrightarrow> auth t = Absent \<Longrightarrow> \<not> auth_flag sel repo"
  "tags repo = Val t \<Longrightarrow> auth t = Null \<Longrightarrow> \<not> auth_flag sel repo"
  by (simp_all add: auth_flag_def)

lemma parse_total: "raw_slug repo \<noteq> Null \<Longrightarrow> \<exists>e. parse_api_server repo = Inr e"
  by (cases "raw_slug repo") (simp_all add: parse_api_server_def get_default_def Let_def)

text \<open>
  Claim C3. Whenever the normalizer returns an entry, its \<open>auth_required\<close> follows the
  precedence api_key, then oauth, then none over the flags of \<^verbatim>\<open>tags.auth\<close>: a true
  \<open>api_key\<close> flag gives \<open>api_key\<close> whatever the other flags are; otherwise a true
  \<open>oauth\<close> flag gives \<open>oauth\<close>; otherwise a true \<open>none\<close> flag gives \<open>none\<close>; and when no
  flag is true, or the tags mapping or its auth mapping is absent or null, the field is
  absent (\<open>None\<close>), not the string \<open>none\<close>.
\<close>

theorem auth_precedence:
  assumes "parse_api_server repo = Inr e"
  shows "(auth_flag api_key repo \<longrightarrow> auth_required e = Some ''api_key'') \<and>
         (\<not> auth_flag api_key repo \<and> auth_flag oauth repo \<longrightarrow> auth_required e = Some ''oauth'') \<and>
         (\<not> auth_flag api_key repo \<and> \<not> auth_flag oauth repo \<and> auth_flag none repo
            \<longrightarrow> auth_required e = Some ''none'') \<and>
         (\<not> auth_flag api_key repo \<and> \<not> auth_flag oauth repo \<and> \<not> auth_flag none repo
            \<longrightarrow> auth_required e = None) \<and>
         (tags repo = Absent \<or> tags repo = Null \<longrightarrow> auth_required e = None) \<and>
         (\<forall>t. tags repo = Val t \<and> (auth t = Absent \<or> auth t = Null) \<longrightarrow> auth_required e = None)"
proof -
  note eq = parse_auth_required [OF assms]
  have a: "tags repo = Absent \<or> tags repo = Null \<longrightarrow> auth_required e = None"
    using eq by (auto simp: auth_flag_absent)
  have b: "\<forall>t. tags repo = Val t \<and> (auth t = Absent \<or> auth t = Null) \<longrightarrow> auth_required e = None"
    using eq by (auto simp: auth_flag_absent)
  from eq a b show ?thesis by simp
qed

theorem auth_precedence_witness:
  "(\<exists>e. parse_api_server (repo_with_auth \<lparr>api_key = Val True, oauth = Val True, none = Val True\<rparr>)
          = Inr e \<and> auth_required e = Some ''api_key'') \<and>
   (\<exists>e. parse_api_server (repo_with_auth \<lparr>api_key = Val False, oauth = Val True, none = Absent\<rparr>)
          = Inr e \<and> auth_required e = Some ''oauth'') \<and>
   (\<exists>e. parse_api_server (repo_with_auth \<lparr>api_key = Val False, oauth = Null, none = Val True\<rparr>)
          = Inr e \<and> auth_required e = Some ''none'') \<and>
   (\<exists>e. parse_api_server (repo_with_auth \<lparr>api_key = Val False, oauth = Val False, none = Val False\<rparr>)
          = Inr e \<and> auth_required e = None) \<and>
   (\<exists>e. parse_api_server bare_repo = Inr e \<and> auth_required e = None)"
proof -
  let ?all = "repo_with_auth \<lparr>api_key = Val True, oauth = Val True, none = Val True\<rparr>"
  let ?oauth = "repo_with_auth \<lparr>api_key = Val False, oauth = Val True, none = Absent\<rparr>"
  let ?none = "repo_with_auth \<lparr>api_key = Val False, oauth = Null, none = Val True\<rparr>"
  let ?off = "repo_with_auth \<lparr>api_key = Val False, oauth = Val False, none = Val False\<rparr>"
  obtain e1 where e1: "parse_api_server ?all = Inr e1"
    using parse_total [of ?all] by (auto simp: repo_with_auth_def bare_repo_def)
  obtain e2 where e2: "parse_api_server ?oauth = Inr e2"
    using parse_total [of ?oauth] by (auto simp: repo_with_auth_def bare_repo_def)
  obtain e3 where e3: "parse_api_server ?none = Inr e3"
    using parse_total [of ?none] by (auto simp: repo_with_auth_def bare_repo_def)
  obtain e4 where e4: "parse_api_server ?off = Inr e4"
    using parse_total [of ?off] by (auto simp: repo_with_auth_def bare_repo_def)
  obtain e5 where e5: "parse_api_server bare_repo = Inr e5"
    using parse_total [of bare_repo] by (auto simp: bare_repo_def)
  have "auth_required e1 = Some ''api_key''"
    using auth_precedence [OF e1] by (simp add: auth_flag_def repo_with_auth_def bare_repo_def)
  moreover have "auth_required e2 = Some ''oauth''"
    using auth_precedence [OF e2] by (simp add: auth_flag_def repo_with_auth_def bare_repo_def)
  moreover have "auth_required e3 = Some ''none''"
    using auth_precedence [OF e3] by (simp add: auth_flag_def repo_with_auth_def bare_repo_def)
  moreover have "auth_required e4 = None"
    using auth_precedence [OF e4] by (simp add: auth_flag_def repo_with_auth_def bare_repo_def)
  moreover have "auth_required e5 = None"
    using auth_precedence [OF e5] by (simp add: bare_repo_def)
  ultimately show ?thesis using e1 e2 e3 e4 e5 by blast
qed

text \<open>
  Claim C4 asks for the publisher \<open>unknown\<close> when the slug has no separator. The
  normalizer tests \<^verbatim>\<open>len(parts) > 0\<close>, which holds for every result of \<^verbatim>\<open>split\<close>, so
  the publisher is the first part: for the record \<^verbatim>\<open>{"slug": "solo"}\<close> the entry has
  the publisher \<open>solo\<close>, and the name \<open>solo\<close>.
\<close>

theorem solo_slug_publisher:
  "parse_api_server solo_repo =
     Inr \<lparr>name = ''solo'', slug = ''solo'', publisher = ''solo'', description = None,
          github_url = None, marketplace_url = ''https://www.dedaluslabs.ai/marketplace/solo'',
          language = None, heat_score = None, upvote_count = None, tools = [],
          auth_required = None\<rparr>"
  by (simp add: normalizer_eval solo_repo_def bare_repo_def)

text \<open>
  Claim C5, as stated, says that the normalizer fails exactly when the slug is absent.
  It does not fail there: for the record \<^verbatim>\<open>{}\<close> the default of
  \<^verbatim>\<open>repo.get("slug", "")\<close> applies and an entry comes back.
\<close>

theorem absent_slug_is_accepted:
  "raw_slug bare_repo = Absent \<and> \<not> isl (parse_api_server bare_repo)"
  by (simp add: normalizer_eval bare_repo_def)

text \<open>
  Claim C5, amended. Over the records of the listing schema the normalizer never fails
  on a missing field, optional or not: it fails exactly when \<open>slug\<close> is present with the
  value \<^verbatim>\<open>null\<close>. An absent slug is read as the empty string, and the entry then has
  the empty string as its slug and as its name.
\<close>

theorem normalizer_fails_iff_null_slug:
  "((\<exists>x. parse_api_server repo = Inl x) \<longleftrightarrow> raw_slug repo = Null) \<and>
   (raw_slug repo = Absent \<longrightarrow>
      (\<exists>e. parse_api_server repo = Inr e \<and> slug e = [] \<and> name e = []))"
  by (cases "raw_slug repo")
     (auto simp: parse_api_server_def get_default_def split1_def Let_def)

theorem normalizer_fails_iff_null_slug_witness:
  "(\<exists>e. parse_api_server bare_repo = Inr e \<and> slug e = [] \<and> name e = []) \<and>
   (\<exists>x. parse_api_server null_slug_repo = Inl x) \<and>
   \<not> (\<exists>x. parse_api_server repo_two = Inl x)"
proof -
  have "raw_slug bare_repo = Absent" "raw_slug null_slug_repo = Null" "raw_slug repo_two \<noteq> Null"
    by (simp_all add: bare_repo_def null_slug_repo_def repo_two_def)
  then show ?thesis
    using normalizer_fails_iff_null_slug [of bare_repo]
      normalizer_fails_iff_null_slug [of null_slug_repo]
      normalizer_fails_iff_null_slug [of repo_two]
    by blast
qed

text \<open>
  Claim C8. For a raw record whose slug contains the separator \<open>/\<close>, the normalizer
  returns an entry with that slug in which publisher, \<open>/\<close> and name concatenate to the
  slug, the publisher being the part before the first separator.
\<close>

theorem slug_roundtrip:
  assumes "raw_slug repo = Val s" and "CHR ''/'' \<in> set s"
  shows "\<exists>e. parse_api_server repo = Inr e \<and> slug e = s \<and>
             publisher e @ ''/'' @ name e = s \<and>
             publisher e = takeWhile (\<lambda>c. c \<noteq> CHR ''/'') s"
  using assms split1_sep [of "CHR ''/''" s]
  by (simp add: parse_api_server_def get_default_def split1_def Let_def)

theorem slug_roundtrip_witness:
  "\<exists>e. parse_api_server repo_one = Inr e \<and> slug e = ''testpub/test-server'' \<and>
       publisher e @ ''/'' @ name e = ''testpub/test-server'' \<and> publisher e = ''testpub''"
proof -
  have a: "raw_slug repo_one = Val ''testpub/test-server''"
    by (simp add: repo_one_def)
  have b: "CHR ''/'' \<in> set ''testpub/test-server''"
    by simp
  from slug_roundtrip [OF a b] show ?thesis by simp
qed

subsection \<open>Markup extractor\<close>

lemma join_token: "t \<in> set toks \<Longrightarrow> \<exists>a b. join sep toks = a @ t @ b"
proof -
  assume "t \<in> set toks"
  then obtain u v where uv: "toks = u @ t # v" by (meson split_list)
  show ?thesis
  proof (cases u)
    case Nil
    with uv have "join sep toks = [] @ t @ concat (map (\<lambda>z. sep @ z) v)"
      by (simp add: join_def)
    then show ?thesis by blast
  next
    case (Cons y ys)
    with uv have "join sep toks =
        (y @ concat (map (\<lambda>z. sep @ z) ys) @ sep) @ t @ concat (map (\<lambda>z. sep @ z) v)"
      by (simp add: join_def)
    then show ?thesis by blast
  qed
qed

lemma str_contains_join:
  assumes "t \<in> set toks" and "str_contains m t"
  shows "str_contains m (join sep toks)"
proof -
  from join_token [OF assms(1)] obtain a b where j: "join sep toks = a @ t @ b" by blast
  from assms(2) obtain c d where "t = c @ m @ d" unfolding str_contains_iff by blast
  with j have "join sep toks = (a @ c) @ m @ (d @ b)" by simp
  then show ?thesis unfolding str_contains_iff by blast
qed

lemma matches_class_iff:
  "matches_class cls = (carries ''text-lg'' cls \<and> carries ''font-semibold'' cls)"
proof (cases cls)
  case None
  then show ?thesis by (simp add: matches_class_def carries_def class_filter_def)
next
  case (Some toks)
  have ne: "str_contains ''text-lg'' s \<Longrightarrow> s \<noteq> []" for s by auto
  show ?thesis
    unfolding Some matches_class_def carries_def class_filter_def
    by (auto simp: list_ex_iff str_contains_join dest: ne)
qed

lemma find_all_nodes:
  "map fst (find_all_node n sibs) = filter is_tool_heading (nodes n)"
  "map fst (find_all ns) = filter is_tool_heading (concat (map nodes ns))"
  by (induction n sibs and ns rule: find_all_node_find_all.induct)
     (simp_all add: is_tool_heading_def matches_class_iff)

lemma find_first_paragraph:
  "(case find_next_sibling ''p'' sibs of
      Some next_p \<Rightarrow> Some (get_text_strip next_p)
    | None \<Rightarrow> None) = first_paragraph sibs"
  unfolding find_next_sibling_def first_paragraph_def
  by (induction sibs) auto

lemma parse_cards_map:
  "parse_cards cards =
     map (\<lambda>c. \<lparr>tool_name = get_text_strip (fst c), tool_description = first_paragraph (snd c)\<rparr>)
       (filter (\<lambda>c. accepted_name (get_text_strip (fst c))) cards)"
proof (induction cards rule: parse_cards.induct)
  case 1
  then show ?case by simp
next
  case (2 h4 sibs rest)
  show ?case
  proof (cases "accepted_name (get_text_strip h4)")
    case True
    then show ?thesis using 2 find_first_paragraph [of sibs]
      by (simp add: accepted_name_def Let_def)
  next
    case False
    then show ?thesis using 2 by (auto simp: accepted_name_def Let_def)
  qed
qed

lemma first_paragraph_later:
  "is_tag ''p'' p \<Longrightarrow> \<forall>n\<in>set pre. \<not> is_tag ''p'' n \<Longrightarrow>
   first_paragraph (pre @ p # post) = Some (get_text_strip p)"
  by (simp add: first_paragraph_def)

lemma first_paragraph_none:
  "first_paragraph sibs = None \<longleftrightarrow> (\<forall>n\<in>set sibs. \<not> is_tag ''p'' n)"
proof -
  have "first_paragraph sibs = None \<longleftrightarrow> filter (is_tag ''p'') sibs = []"
    by (simp add: first_paragraph_def split: list.splits)
  then show ?thesis by (simp add: filter_empty_conv)
qed


lemma contexts_nodes: "map fst (contexts doc) = concat (map nodes doc)"
proof (induction doc rule: contexts.induct)
  case 1
  then show ?case by simp
next
  case (2 n ns)
  then show ?case by (cases n) simp_all
qed

lemma find_all_contexts:
  "find_all_node n sibs =
     filter (\<lambda>c. is_tool_heading (fst c))
       ((n, sibs) # (case n of Elem nm cls kids \<Rightarrow> contexts kids | _ \<Rightarrow> []))"
  "find_all ns = filter (\<lambda>c. is_tool_heading (fst c)) (contexts ns)"
  by (induction n sibs and ns rule: find_all_node_find_all.induct)
     (simp_all add: is_tool_heading_def matches_class_iff)

lemma occurs_Cons: "occurs ns n sibs \<Longrightarrow> occurs (m # ns) n sibs"
proof (induction rule: occurs.induct)
  case (here pre n sibs)
  have "occurs ((m # pre) @ n # sibs) n sibs" by (rule occurs.here)
  then show ?case by simp
next
  case (inside kids n sibs pre nm cls post)
  from inside.hyps(1) have "occurs ((m # pre) @ Elem nm cls kids # post) n sibs"
    by (rule occurs.inside)
  then show ?case by simp
qed

lemma contexts_suffix: "set (contexts xs) \<subseteq> set (contexts (pre @ xs))"
  by (induction pre) auto

lemma contexts_occurs: "(n, sibs) \<in> set (contexts doc) \<longleftrightarrow> occurs doc n sibs"
proof
  show "occurs doc n sibs" if "(n, sibs) \<in> set (contexts doc)"
    using that
  proof (induction doc rule: contexts.induct)
    case 1
    then show ?case by simp
  next
    case (2 m ms)
    from "2.prems" consider
        (first) "(n, sibs) = (m, ms)"
      | (child) nm cls kids where "m = Elem nm cls kids" "(n, sibs) \<in> set (contexts kids)"
      | (rest) "(n, sibs) \<in> set (contexts ms)"
      by (cases m) auto
    then show ?case
    proof cases
      case first
      have "occurs ([] @ m # ms) m ms" by (rule occurs.here)
      with first show ?thesis by simp
    next
      case child
      with "2.IH"(1) have "occurs kids n sibs" by simp
      then have "occurs ([] @ Elem nm cls kids # ms) n sibs" by (rule occurs.inside)
      with child show ?thesis by simp
    next
      case rest
      with "2.IH"(2) have "occurs ms n sibs" by simp
      then show ?thesis by (rule occurs_Cons)
    qed
  qed
  show "(n, sibs) \<in> set (contexts doc)" if "occurs doc n sibs"
    using that
  proof (induction rule: occurs.induct)
    case (here pre n sibs)
    have "(n, sibs) \<in> set (contexts (n # sibs))" by simp
    with contexts_suffix [of "n # sibs" pre] show ?case by blast
  next
    case (inside kids n sibs pre nm cls post)
    from inside.IH have "(n, sibs) \<in> set (contexts (Elem nm cls kids # post))" by simp
    with contexts_suffix [of "Elem nm cls kids # post" pre] show ?case by blast
  qed
qed

lemma parse_tools_contexts:
  "parse_tools_from_html bs html =
     map (\<lambda>c. \<lparr>tool_name = get_text_strip (fst c), tool_description = first_paragraph (snd c)\<rparr>)
       (filter (\<lambda>c. is_tool_heading (fst c) \<and> accepted_name (get_text_strip (fst c)))
          (contexts (bs html)))"
  by (simp add: parse_tools_from_html_def parse_cards_map find_all_contexts conj_commute)

text \<open>
  Claim C6, as stated, gives one descriptor per heading that carries both class
  markers. The extractor looks at \<^verbatim>\<open>h4\<close> elements only: a page whose \<^verbatim>\<open>h3\<close> heading
  has both markers as class tokens and an acceptable text yields no descriptor.
\<close>

theorem other_heading_level_is_skipped:
  "carries ''text-lg'' (Some [''text-lg'', ''font-semibold'']) \<and>
   carries ''font-semibold'' (Some [''text-lg'', ''font-semibold'']) \<and>
   accepted_name ''my_tool'' \<and>
   parse_tools_from_html (fixed_parser other_level_page) ''<html>'' = []"
  by (simp add: other_level_page_def fixed_parser_def carries_def accepted_name_def markup_eval)

text \<open>
  Claim C6, amended. For every document, on the tree that the parser builds for it, the
  names of the descriptors that the extractor returns are, in document order, the
  texts (every string of the heading stripped, the empty ones dropped, the rest joined)
  of the \<^verbatim>\<open>h4\<close> headings whose class attribute text contains both \<open>text-lg\<close> and
  \<open>font-semibold\<close>, keeping the texts that are non-empty, outside the exclusion set
  and not upper-case in the sense of \<^verbatim>\<open>str.isupper\<close>: one descriptor per such heading.
  In particular a document whose matching headings are all excluded labels gives the
  empty sequence. On every tree the extractor returns a sequence, with at most one
  descriptor per matching heading, so that missing structure gives fewer or no results;
  that the parser builds a tree for every text is taken from the library.
\<close>

theorem extractor_names:
  "map tool_name (parse_tools_from_html bs html) =
     filter accepted_name (map get_text_strip (filter is_tool_heading (all_nodes (bs html)))) \<and>
   ((\<forall>h\<in>set (filter is_tool_heading (all_nodes (bs html))). get_text_strip h \<in> excluded_names)
      \<longrightarrow> parse_tools_from_html bs html = []) \<and>
   length (parse_tools_from_html bs html) \<le> length (filter is_tool_heading (all_nodes (bs html)))"
proof -
  have hs: "filter is_tool_heading (all_nodes (bs html)) = map fst (find_all (bs html))"
    by (simp add: all_nodes_def find_all_nodes)
  have a: "map tool_name (parse_tools_from_html bs html) =
     filter accepted_name (map get_text_strip (map fst (find_all (bs html))))"
    by (simp add: parse_tools_from_html_def parse_cards_map filter_map comp_def)
  have b: "parse_tools_from_html bs html = []"
    if "\<forall>h\<in>set (map fst (find_all (bs html))). get_text_strip h \<in> excluded_names"
  proof -
    from that have "filter (\<lambda>c. accepted_name (get_text_strip (fst c))) (find_all (bs html)) = []"
      by (auto simp: filter_empty_conv accepted_name_def)
    then show ?thesis by (simp add: parse_tools_from_html_def parse_cards_map)
  qed
  have "length (parse_tools_from_html bs html) =
        length (filter (\<lambda>c. accepted_name (get_text_strip (fst c))) (find_all (bs html)))"
    by (simp add: parse_tools_from_html_def parse_cards_map)
  also have "\<dots> \<le> length (find_all (bs html))"
    by (rule length_filter_le)
  also have "\<dots> = length (map fst (find_all (bs html)))"
    by simp
  finally have c: "length (parse_tools_from_html bs html) \<le> length (map fst (find_all (bs html)))" .
  from a b c show ?thesis unfolding hs by blast
qed

theorem extractor_names_witness:
  "map tool_name (parse_tools_from_html (fixed_parser tool_page) ''<html>'') =
     [''test_tool_one'', ''test_tool_two''] \<and>
   parse_tools_from_html (fixed_parser labels_page) ''<html>'' = [] \<and>
   length (parse_tools_from_html (fixed_parser labels_page) ''<html>'') \<le> 2"
proof -
  have "map tool_name (parse_tools_from_html (fixed_parser tool_page) ''<html>'') =
     filter accepted_name (map get_text_strip (filter is_tool_heading (all_nodes tool_page)))"
    using extractor_names [of "fixed_parser tool_page" "''<html>''"]
    by (simp add: fixed_parser_def)
  also have "\<dots> = [''test_tool_one'', ''test_tool_two'']"
    by (simp add: tool_page_def all_nodes_def is_tool_heading_def carries_def accepted_name_def
          markup_eval)
  finally have names: "map tool_name (parse_tools_from_html (fixed_parser tool_page) ''<html>'') =
     [''test_tool_one'', ''test_tool_two'']" .
  have two: "filter is_tool_heading (all_nodes (fixed_parser labels_page ''<html>'')) =
       [Elem ''h4'' (Some [''text-lg'', ''font-semibold'']) [Text ''Tools''],
        Elem ''h4'' (Some [''font-semibold'', ''text-lg'']) [Text '' Product '']]"
    by (simp add: labels_page_def fixed_parser_def all_nodes_def is_tool_heading_def carries_def
          markup_eval)
  have "\<forall>h\<in>set (filter is_tool_heading (all_nodes (fixed_parser labels_page ''<html>''))).
          get_text_strip h \<in> excluded_names"
    unfolding two by (simp add: markup_eval)
  then have none: "parse_tools_from_html (fixed_parser labels_page) ''<html>'' = []"
    using extractor_names [of "fixed_parser labels_page" "''<html>''"] by blast
  have "length (parse_tools_from_html (fixed_parser labels_page) ''<html>'') \<le>
        length (filter is_tool_heading (all_nodes (fixed_parser labels_page ''<html>'')))"
    using extractor_names [of "fixed_parser labels_page" "''<html>''"] by blast
  then have "length (parse_tools_from_html (fixed_parser labels_page) ''<html>'') \<le> 2"
    unfolding two by simp
  with names none show ?thesis by simp
qed

text \<open>
  Claim C7, as stated, makes the description absent when the element right after the
  heading is not a paragraph. On a page where the heading is followed by a \<^verbatim>\<open>div\<close>
  and then by a paragraph, the extractor takes the text of that later paragraph.
\<close>

theorem later_paragraph_is_taken:
  "map snd (find_all later_paragraph_page) =
     [[Elem ''div'' None [Text ''badge''], Elem ''p'' None [Text ''Later paragraph'']]] \<and>
   parse_tools_from_html (fixed_parser later_paragraph_page) ''<html>'' =
     [\<lparr>tool_name = ''my_tool'', tool_description = Some ''Later paragraph''\<rparr>]"
  by (simp add: later_paragraph_page_def fixed_parser_def markup_eval)

text \<open>
  Claim C7, amended. The extractor returns, in document order, one descriptor for every
  accepted capability heading of the tree, and the description of that descriptor is
  the text (every string stripped, the empty ones dropped, the rest joined) of the
  first paragraph element among the siblings that follow the heading under its parent,
  whether or not other nodes stand between the heading and that paragraph; it is
  absent exactly when no following sibling is a paragraph. Here \<open>contexts\<close> lists every
  node of the tree with the siblings that follow it.
\<close>

theorem description_first_paragraph:
  "parse_tools_from_html bs html =
     map (\<lambda>c. \<lparr>tool_name = get_text_strip (fst c), tool_description = first_paragraph (snd c)\<rparr>)
       (filter (\<lambda>c. is_tool_heading (fst c) \<and> accepted_name (get_text_strip (fst c)))
          (contexts (bs html))) \<and>
   (\<forall>pre p post. is_tag ''p'' p \<and> (\<forall>n\<in>set pre. \<not> is_tag ''p'' n) \<longrightarrow>
      first_paragraph (pre @ p # post) = Some (get_text_strip p)) \<and>
   (\<forall>sibs. first_paragraph sibs = None \<longleftrightarrow> (\<forall>n\<in>set sibs. \<not> is_tag ''p'' n)) \<and>
   (\<forall>n sibs. (n, sibs) \<in> set (contexts (bs html)) \<longleftrightarrow> occurs (bs html) n sibs)"
  using parse_tools_contexts [of bs html] first_paragraph_later first_paragraph_none
    contexts_occurs [of _ _ "bs html"]
  by blast

theorem description_first_paragraph_witness:
  "parse_tools_from_html (fixed_parser tool_page) ''<html>'' =
     [\<lparr>tool_name = ''test_tool_one'', tool_description = Some ''First test tool description.''\<rparr>,
      \<lparr>tool_name = ''test_tool_two'', tool_description = Some ''Second test tool description.''\<rparr>] \<and>
   first_paragraph ([Text ''  '', Elem ''div'' None []] @ Elem ''p'' None [Text '' x ''] # [])
     = Some ''x'' \<and>
   first_paragraph [Text ''  '', Elem ''div'' None []] = None \<and>
   (Elem ''p'' None [Text ''About my tool''], []) \<in> set (contexts other_level_page)"
proof -
  note inst = description_first_paragraph [of "fixed_parser tool_page" "''<html>''"]
  have "parse_tools_from_html (fixed_parser tool_page) ''<html>'' =
     map (\<lambda>c. \<lparr>tool_name = get_text_strip (fst c), tool_description = first_paragraph (snd c)\<rparr>)
       (filter (\<lambda>c. is_tool_heading (fst c) \<and> accepted_name (get_text_strip (fst c)))
          (contexts tool_page))"
    using inst by (simp add: fixed_parser_def)
  also have "\<dots> =
     [\<lparr>tool_name = ''test_tool_one'', tool_description = Some ''First test tool description.''\<rparr>,
      \<lparr>tool_name = ''test_tool_two'', tool_description = Some ''Second test tool description.''\<rparr>]"
    by (simp add: tool_page_def first_paragraph_def accepted_name_def is_tool_heading_def
          carries_def markup_eval)
  finally have a: "parse_tools_from_html (fixed_parser tool_page) ''<html>'' =
     [\<lparr>tool_name = ''test_tool_one'', tool_description = Some ''First test tool description.''\<rparr>,
      \<lparr>tool_name = ''test_tool_two'', tool_description = Some ''Second test tool description.''\<rparr>]" .
  have "is_tag ''p'' (Elem ''p'' None [Text '' x '']) \<and>
        (\<forall>n\<in>set [Text ''  '', Elem ''div'' None []]. \<not> is_tag ''p'' n)"
    by (simp add: is_tag_def)
  with inst have "first_paragraph ([Text ''  '', Elem ''div'' None []] @ Elem ''p'' None [Text '' x ''] # [])
     = Some (get_text_strip (Elem ''p'' None [Text '' x '']))"
    by blast
  then have b: "first_paragraph ([Text ''  '', Elem ''div'' None []] @ Elem ''p'' None [Text '' x ''] # [])
     = Some ''x''"
    by (simp add: get_text_strip_def strip_def is_space_def)
  have "\<forall>n\<in>set [Text ''  '', Elem ''div'' None []]. \<not> is_tag ''p'' n"
    by (simp add: is_tag_def)
  with inst have c: "first_paragraph [Text ''  '', Elem ''div'' None []] = None"
    by blast
  have "occurs [Elem ''p'' None [Text ''About my tool'']] (Elem ''p'' None [Text ''About my tool'']) []"
    using occurs.here [of "[]" "Elem ''p'' None [Text ''About my tool'']" "[]"] by simp
  then have "occurs ([Elem ''h3'' (Some [''text-lg'', ''font-semibold'']) [Text ''my_tool'']]
                @ Elem ''p'' None [Text ''About my tool''] # [])
               (Elem ''p'' None [Text ''About my tool'']) []"
    using occurs.here [of "[Elem ''h3'' (Some [''text-lg'', ''font-semibold'']) [Text ''my_tool'']]"
            "Elem ''p'' None [Text ''About my tool'']" "[]"]
    by simp
  then have "occurs other_level_page (Elem ''p'' None [Text ''About my tool'']) []"
    using occurs.inside [of _ _ _ "[]" "''body''" None "[]"]
    by (simp add: other_level_page_def)
  with description_first_paragraph [of "fixed_parser other_level_page" "''<html>''"]
  have d: "(Elem ''p'' None [Text ''About my tool''], []) \<in> set (contexts other_level_page)"
    by (simp add: fixed_parser_def)
  from a b c d show ?thesis by blast
qed

subsection \<open>Scan orchestrator\<close>

lemma fetch_api_data_transport:
  "session MARKETPLACE_API_URL = Inl e \<Longrightarrow> fetch_api_data session = Inl e"
  by (simp add: fetch_api_data_def)

lemma fetch_api_data_status:
  "session MARKETPLACE_API_URL = Inr r \<Longrightarrow> 400 \<le> status_code r \<Longrightarrow> status_code r < 600 \<Longrightarrow>
   fetch_api_data session = Inl (RequestException (error_text r))"
  by (simp add: fetch_api_data_def raise_for_status_def)

lemma fetch_api_data_below_400:
  "session MARKETPLACE_API_URL = Inr r \<Longrightarrow> status_code r < 400 \<Longrightarrow>
   fetch_api_data session = json_data r"
  by (simp add: fetch_api_data_def raise_for_status_def)

lemma scan_bulk_failure:
  "fetch_api_data session = Inl (RequestException m) \<Longrightarrow>
   scan_marketplace_sync bs session include_tools order =
     Inr \<lparr>total_servers = 0, servers = [], errors = [''Failed to fetch marketplace API: '' @ m]\<rparr>"
  by (simp add: scan_marketplace_sync_def)

text \<open>
  Claim C2, as stated, counts every status outside 2xx as a failed bulk fetch. The
  fetch fails only where \<^verbatim>\<open>raise_for_status\<close> raises, for a 4xx or 5xx status: when
  the listing endpoint answers 300 with the body \<^verbatim>\<open>{"repositories": []}\<close>, the scan
  reads the body as the listing and returns no error string.
\<close>

theorem status_300_is_not_a_failure:
  "session_300 MARKETPLACE_API_URL = Inr (listing_response 300 []) \<and>
   status_code (listing_response 300 []) = 300 \<and>
   scan_marketplace_sync (fixed_parser []) session_300 False [] =
     Inr \<lparr>total_servers = 0, servers = [], errors = []\<rparr>"
  by (simp add: session_300_def mocker_def listing_response_def scan_marketplace_sync_def
        get_default_def network_eval)

text \<open>
  Claim C2, amended. For every scan in which the bulk listing fetch fails, by a
  transport error (\<^verbatim>\<open>session.get\<close> raises a \<^verbatim>\<open>RequestException\<close>) or by a 4xx or 5xx
  status, the scan operation returns, without raising, a result with
  \<open>total_servers = 0\<close>, no entries, and exactly one error string, which contains
  \<open>Failed to fetch\<close>.
\<close>

theorem bulk_failure_result:
  assumes "(\<exists>m. session MARKETPLACE_API_URL = Inl (RequestException m)) \<or>
           (\<exists>r. session MARKETPLACE_API_URL = Inr r \<and> 400 \<le> status_code r \<and> status_code r < 600)"
  shows "\<exists>msg. scan_marketplace_sync bs session include_tools order =
                 Inr \<lparr>total_servers = 0, servers = [], errors = [msg]\<rparr> \<and>
               str_contains ''Failed to fetch'' msg"
proof -
  from assms obtain m where "fetch_api_data session = Inl (RequestException m)"
    using fetch_api_data_transport fetch_api_data_status by blast
  then have "scan_marketplace_sync bs session include_tools order =
     Inr \<lparr>total_servers = 0, servers = [], errors = [''Failed to fetch marketplace API: '' @ m]\<rparr>"
    by (rule scan_bulk_failure)
  moreover have "str_contains ''Failed to fetch'' (''Failed to fetch'' @ ('' marketplace API: '' @ m))"
    by (rule str_contains_prefix)
  then have "str_contains ''Failed to fetch'' (''Failed to fetch marketplace API: '' @ m)"
    by simp
  ultimately show ?thesis by blast
qed

theorem bulk_failure_result_witness:
  "(\<exists>msg. scan_marketplace_sync (fixed_parser tool_page) session_500 True [] =
            Inr \<lparr>total_servers = 0, servers = [], errors = [msg]\<rparr> \<and>
          str_contains ''Failed to fetch'' msg) \<and>
   (\<exists>msg. scan_marketplace_sync (fixed_parser tool_page) (mocker []) False [] =
            Inr \<lparr>total_servers = 0, servers = [], errors = [msg]\<rparr> \<and>
          str_contains ''Failed to fetch'' msg)"
proof -
  have status: "(\<exists>m. session_500 MARKETPLACE_API_URL = Inl (RequestException m)) \<or>
     (\<exists>r. session_500 MARKETPLACE_API_URL = Inr r \<and> 400 \<le> status_code r \<and> status_code r < 600)"
    by (simp add: session_500_def mocker_def listing_response_def)
  have transport: "(\<exists>m. mocker [] MARKETPLACE_API_URL = Inl (RequestException m)) \<or>
     (\<exists>r. mocker [] MARKETPLACE_API_URL = Inr r \<and> 400 \<le> status_code r \<and> status_code r < 600)"
    by (simp add: mocker_def)
  from bulk_failure_result [where session = session_500, OF status]
    bulk_failure_result [where session = "mocker []", OF transport]
  show ?thesis by blast
qed

text \<open>
  Claim C9. Every result that the scan operation returns, on the success path and on
  the bulk-fetch-failure path alike, has \<open>total_servers\<close> equal to the length of its
  entry sequence.
\<close>

theorem total_is_length:
  assumes "scan_marketplace_sync bs session include_tools order = Inr r"
  shows "total_servers r = int (length (servers r))"
  using assms
  by (auto simp: scan_marketplace_sync_def Let_def
           split: sum.splits exn.splits option.splits prod.splits if_splits)

theorem total_is_length_witness:
  "(\<exists>r. scan_marketplace_sync (fixed_parser tool_page) listing_session False [] = Inr r \<and>
        length (servers r) = 2 \<and> total_servers r = int (length (servers r))) \<and>
   (\<exists>r. scan_marketplace_sync (fixed_parser tool_page) session_500 False [] = Inr r \<and>
        length (servers r) = 0 \<and> total_servers r = int (length (servers r)))"
proof -
  have "\<exists>r. scan_marketplace_sync (fixed_parser tool_page) listing_session False [] = Inr r \<and>
          length (servers r) = 2"
    by (simp add: listing_session_def mocker_def listing_response_def repo_one_def repo_two_def
          scan_marketplace_sync_def network_eval normalizer_eval)
  then obtain r1 where
    r1: "scan_marketplace_sync (fixed_parser tool_page) listing_session False [] = Inr r1"
    and l1: "length (servers r1) = 2" by blast
  have "\<exists>r. scan_marketplace_sync (fixed_parser tool_page) session_500 False [] = Inr r \<and>
          length (servers r) = 0"
    by (simp add: session_500_def mocker_def listing_response_def scan_marketplace_sync_def
          network_eval)
  then obtain r2 where
    r2: "scan_marketplace_sync (fixed_parser tool_page) session_500 False [] = Inr r2"
    and l2: "length (servers r2) = 0" by blast
  from total_is_length [OF r1] total_is_length [OF r2] r1 r2 l1 l2
  show ?thesis by blast
qed

subsection \<open>Enrichment orchestrator\<close>

lemma map_filter_append:
  "List.map_filter f (xs @ ys) = List.map_filter f xs @ List.map_filter f ys"
  by (simp add: List.map_filter_def)

lemma map_filter_map: "List.map_filter f (map g xs) = List.map_filter (\<lambda>x. f (g x)) xs"
  by (induction xs) (simp_all split: option.splits)

lemma map_filter_none: "(\<forall>x\<in>set xs. f x = None) \<Longrightarrow> List.map_filter f xs = []"
  by (induction xs) simp_all

lemma collect_length: "length (fst (collect rs S E)) = length S"
  by (induction rs arbitrary: S E) (auto split: option.splits)

lemma collect_errors:
  "snd (collect rs S E) = E @ List.map_filter task_error rs"
  by (induction rs arbitrary: S E)
     (auto simp: task_error_def split: option.splits)

lemma collect_fields:
  "k < length S \<Longrightarrow> (fst (collect rs S E) ! k)\<lparr>tools := x\<rparr> = (S ! k)\<lparr>tools := x\<rparr>"
proof (induction rs arbitrary: S E)
  case Nil
  then show ?case by simp
next
  case (Cons r rs)
  obtain i ts error where r: "r = (i, ts, error)" by (cases r)
  have upd: "(S[i := (S ! i)\<lparr>tools := t\<rparr>] ! k)\<lparr>tools := x\<rparr> = (S ! k)\<lparr>tools := x\<rparr>" for t
    using Cons.prems by (cases "i = k") simp_all
  show ?case
    using Cons.IH [of S] Cons.IH [of "S[i := (S ! i)\<lparr>tools := t\<rparr>]" for t] Cons.prems upd
    by (auto simp: r split: option.splits)
qed

lemma collect_untouched:
  "k \<notin> fst ` set rs \<Longrightarrow> fst (collect rs S E) ! k = S ! k"
  by (induction rs arbitrary: S E) (auto split: option.splits)

lemma collect_task:
  assumes "distinct (map fst rs)" and "(k, ts, error) \<in> set rs" and "k < length S"
  shows "tools (fst (collect rs S E) ! k) =
           (if truthy_str error then tools (S ! k)
            else case ts of Some t \<Rightarrow> t | None \<Rightarrow> tools (S ! k))"
  using assms
proof (induction rs arbitrary: S E)
  case Nil
  then show ?case by simp
next
  case (Cons r rs)
  obtain i ts' error' where r: "r = (i, ts', error')" by (cases r)
  show ?case
  proof (cases "r = (k, ts, error)")
    case True
    with Cons.prems(1) have "k \<notin> fst ` set rs" by auto
    then have same: "fst (collect rs S' E') ! k = S' ! k" for S' E'
      by (rule collect_untouched)
    from True Cons.prems(3) show ?thesis
      by (auto simp: same split: option.splits)
  next
    case False
    with Cons.prems have in_rs: "(k, ts, error) \<in> set rs" and d: "distinct (map fst rs)"
      by auto
    from in_rs Cons.prems(1) r have ik: "i \<noteq> k" by force
    have IH: "tools (fst (collect rs S' E') ! k) =
           (if truthy_str error then tools (S' ! k)
            else case ts of Some t \<Rightarrow> t | None \<Rightarrow> tools (S' ! k))"
      if "k < length S'" for S' E'
      using Cons.IH [OF d in_rs that] .
    show ?thesis
      using IH [of S] IH [of "S[i := (S ! i)\<lparr>tools := t\<rparr>]" for t] Cons.prems(3) ik
      by (auto simp: r split: option.splits)
  qed
qed

lemma fetch_tools_failed:
  "fetch_detail_page session (marketplace_url server) = Inr None \<Longrightarrow>
   fetch_tools bs session server = (None, Some (''Failed to fetch '' @ marketplace_url server))"
  by (simp add: fetch_tools_def)

lemma fetch_tools_body:
  "fetch_detail_page session (marketplace_url server) = Inr (Some body) \<Longrightarrow> body \<noteq> [] \<Longrightarrow>
   fetch_tools bs session server = (Some (parse_tools_from_html bs body), None)"
  by (simp add: fetch_tools_def)

lemma fetch_tools_empty_body:
  "fetch_detail_page session (marketplace_url server) = Inr (Some []) \<Longrightarrow>
   fetch_tools bs session server = (None, Some (''Failed to fetch '' @ marketplace_url server))"
  by (simp add: fetch_tools_def)

lemma fetch_tools_error:
  "task_error (i, fetch_tools bs session server) = snd (fetch_tools bs session server)"
  by (auto simp: task_error_def fetch_tools_def split: sum.splits option.splits)

lemma fetch_detail_page_transport:
  "session url = Inl (RequestException m) \<Longrightarrow> fetch_detail_page session url = Inr None"
  by (simp add: fetch_detail_page_def)

lemma fetch_detail_page_served:
  "session url = Inr r \<Longrightarrow> raise_for_status r = None \<Longrightarrow>
   fetch_detail_page session url = Inr (Some (resp_text r))"
  by (simp add: fetch_detail_page_def)

lemma enrich_length: "length (fst (enrich_with_tools bs session S order)) = length S"
  by (simp add: enrich_with_tools_def collect_length)

lemma enrich_fields:
  "k < length S \<Longrightarrow>
   (fst (enrich_with_tools bs session S order) ! k)\<lparr>tools := x\<rparr> = (S ! k)\<lparr>tools := x\<rparr>"
  by (simp add: enrich_with_tools_def collect_fields)

lemma enrich_task:
  assumes "distinct order" and "k \<in> set order" and "k < length S"
    and "fetch_tools bs session (S ! k) = (ts, error)"
  shows "tools (fst (enrich_with_tools bs session S order) ! k) =
           (if truthy_str error then tools (S ! k)
            else case ts of Some t \<Rightarrow> t | None \<Rightarrow> tools (S ! k))"
proof -
  let ?rs = "map (\<lambda>i. (i, fetch_tools bs session (S ! i))) order"
  have "distinct (map fst ?rs)" using assms(1) by (simp add: comp_def)
  moreover have "(k, ts, error) \<in> set ?rs" using assms(2,4) by force
  ultimately show ?thesis
    unfolding enrich_with_tools_def using assms(3) by (rule collect_task)
qed

lemma enrich_errors:
  "snd (enrich_with_tools bs session S order) = task_errors bs session S order"
  by (simp add: enrich_with_tools_def collect_errors map_filter_map fetch_tools_error
        task_errors_def)

text \<open>
  Claim C1. Let \<open>S\<close> be a sequence of catalog entries and \<open>order\<close> any order in which
  the tasks of its positions complete. If the detail fetch fails for the entry at
  position \<open>k\<close> and returns a non-empty body for every other entry, then the sequence
  handed back has the length of \<open>S\<close> and holds the same entries at the same positions
  (only \<open>tools\<close> may differ), the failing entry keeps its \<open>tools\<close> (empty if they
  were empty), the error list is the single string \<open>Failed to fetch\<close> followed by the
  URL of the failing entry, and the \<open>tools\<close> of every other entry are the extractor's
  result for the body fetched for it.
\<close>

theorem enrich_one_failure:
  assumes "distinct order" and "set order = {..<length S}"
    and "k < length S"
    and "fetch_detail_page session (marketplace_url (S ! k)) = Inr None"
    and "\<forall>i<length S. i \<noteq> k \<longrightarrow>
           (\<exists>body. body \<noteq> [] \<and> fetch_detail_page session (marketplace_url (S ! i)) = Inr (Some body))"
  shows "\<exists>S' errs. enrich_with_tools bs session S order = (S', errs) \<and>
           length S' = length S \<and>
           (\<forall>i<length S. (S' ! i)\<lparr>tools := []\<rparr> = (S ! i)\<lparr>tools := []\<rparr>) \<and>
           tools (S' ! k) = tools (S ! k) \<and>
           (tools (S ! k) = [] \<longrightarrow> tools (S' ! k) = []) \<and>
           errs = [''Failed to fetch '' @ marketplace_url (S ! k)] \<and>
           (\<forall>i<length S. i \<noteq> k \<longrightarrow>
              (\<exists>body. fetch_detail_page session (marketplace_url (S ! i)) = Inr (Some body) \<and>
                      tools (S' ! i) = parse_tools_from_html bs body))"
proof -
  let ?R = "enrich_with_tools bs session S order"
  let ?msg = "''Failed to fetch '' @ marketplace_url (S ! k)"
  have len: "length (fst ?R) = length S"
    by (rule enrich_length)
  have fields: "\<forall>i<length S. (fst ?R ! i)\<lparr>tools := []\<rparr> = (S ! i)\<lparr>tools := []\<rparr>"
    by (simp add: enrich_fields)
  have k_in: "k \<in> set order" using assms(2,3) by simp
  have fk: "fetch_tools bs session (S ! k) = (None, Some ?msg)"
    using assms(4) by (rule fetch_tools_failed)
  have tk: "tools (fst ?R ! k) = tools (S ! k)"
    using enrich_task [OF assms(1) k_in assms(3) fk] by simp
  have others: "\<exists>body. fetch_detail_page session (marketplace_url (S ! i)) = Inr (Some body) \<and>
                  fetch_tools bs session (S ! i) = (Some (parse_tools_from_html bs body), None) \<and>
                  tools (fst ?R ! i) = parse_tools_from_html bs body"
    if "i < length S" "i \<noteq> k" for i
  proof -
    from assms(5) that obtain body where b: "body \<noteq> []"
      "fetch_detail_page session (marketplace_url (S ! i)) = Inr (Some body)" by blast
    have fi: "fetch_tools bs session (S ! i) = (Some (parse_tools_from_html bs body), None)"
      using b(2) b(1) by (rule fetch_tools_body)
    have "i \<in> set order" using assms(2) that(1) by simp
    from enrich_task [OF assms(1) this that(1) fi] b(2) fi show ?thesis by simp
  qed
  have errs: "snd ?R = [?msg]"
  proof -
    from k_in obtain pre post where ord: "order = pre @ k # post" by (meson split_list)
    with assms(1) have nk: "k \<notin> set pre" "k \<notin> set post" by auto
    have quiet: "snd (fetch_tools bs session (S ! i)) = None"
      if "i \<in> set pre \<union> set post" for i
    proof -
      from that ord assms(2) nk have "i < length S" "i \<noteq> k" by auto
      from others [OF this] show ?thesis by auto
    qed
    have "task_errors bs session S pre = []" "task_errors bs session S post = []"
      unfolding task_errors_def using quiet by (simp_all add: map_filter_none)
    then show ?thesis
      by (simp add: enrich_errors ord task_errors_def map_filter_append fk)
  qed
  have "?R = (fst ?R, snd ?R)" by simp
  with len fields tk errs others show ?thesis by metis
qed

theorem enrich_one_failure_witness:
  "\<exists>S' errs.
     enrich_with_tools (fixed_parser tool_page) one_down_session [entry ''a'', entry ''b''] [1, 0]
       = (S', errs) \<and>
     length S' = 2 \<and> tools (S' ! 1) = [] \<and> errs = [''Failed to fetch site/b''] \<and>
     tools (S' ! 0) = parse_tools_from_html (fixed_parser tool_page) ''<html>''"
proof -
  let ?S = "[entry ''a'', entry ''b'']"
  have h1: "distinct [1, 0 :: nat]" by simp
  have h2: "set [1, 0 :: nat] = {..<length ?S}" by auto
  have h3: "(1 :: nat) < length ?S" by simp
  have page_a: "fetch_detail_page one_down_session (marketplace_url (?S ! 0)) = Inr (Some ''<html>'')"
    by (simp add: one_down_session_def mocker_def page_response_def entry_def network_eval)
  have h4: "fetch_detail_page one_down_session (marketplace_url (?S ! 1)) = Inr None"
    by (simp add: one_down_session_def mocker_def page_response_def entry_def network_eval)
  have h5: "\<forall>i<length ?S. i \<noteq> 1 \<longrightarrow>
      (\<exists>body. body \<noteq> [] \<and>
         fetch_detail_page one_down_session (marketplace_url (?S ! i)) = Inr (Some body))"
  proof (intro allI impI)
    fix i assume "i < length ?S" "i \<noteq> 1"
    then have "i = 0" by simp
    with page_a show "\<exists>body. body \<noteq> [] \<and>
         fetch_detail_page one_down_session (marketplace_url (?S ! i)) = Inr (Some body)"
      by simp
  qed
  from enrich_one_failure
    [where order = "[1, 0]" and S = ?S and k = 1 and session = one_down_session
       and bs = "fixed_parser tool_page", OF h1 h2 h3 h4 h5]
  obtain S' errs where
    r: "enrich_with_tools (fixed_parser tool_page) one_down_session ?S [1, 0] = (S', errs)"
    and len: "length S' = length ?S"
    and keep: "tools (S' ! 1) = tools (?S ! 1)"
    and errs: "errs = [''Failed to fetch '' @ marketplace_url (?S ! 1)]"
    and rest: "\<forall>i<length ?S. i \<noteq> 1 \<longrightarrow>
         (\<exists>body. fetch_detail_page one_down_session (marketplace_url (?S ! i)) = Inr (Some body) \<and>
                 tools (S' ! i) = parse_tools_from_html (fixed_parser tool_page) body)"
    by blast
  from rest page_a have "tools (S' ! 0) = parse_tools_from_html (fixed_parser tool_page) ''<html>''"
    by auto
  moreover from keep have "tools (S' ! 1) = []" by (simp add: entry_def)
  moreover from errs have "errs = [''Failed to fetch site/b'']" by (simp add: entry_def)
  moreover from len have "length S' = 2" by simp
  ultimately show ?thesis using r by blast
qed

text \<open>
  Claim C10. When the detail fetch of the entry at position \<open>k\<close> completes, with a status
  for which \<^verbatim>\<open>raise_for_status\<close> does not raise, and the response body is the empty
  string, the result of the entry's task carries no tools and the string
  \<open>Failed to fetch\<close> followed by the URL, whatever the markup parser is: the extractor
  is not run. This is the result of the task under a transport failure. The
  orchestrator leaves the \<open>tools\<close> of the entry as they were, and the entry contributes
  exactly that one string to the error list, between the strings of the tasks that
  complete before and after it.
\<close>

theorem empty_body_is_failure:
  assumes "distinct order" and "set order = {..<length S}"
    and "k < length S"
    and "session (marketplace_url (S ! k)) = Inr r"
    and "raise_for_status r = None"
    and "resp_text r = []"
  shows "fetch_detail_page session (marketplace_url (S ! k)) = Inr (Some []) \<and>
         (\<forall>bs'. fetch_tools bs' session (S ! k) =
                  (None, Some (''Failed to fetch '' @ marketplace_url (S ! k)))) \<and>
         (\<forall>session' m. session' (marketplace_url (S ! k)) = Inl (RequestException m) \<longrightarrow>
             fetch_tools bs session' (S ! k) = fetch_tools bs session (S ! k)) \<and>
         tools (fst (enrich_with_tools bs session S order) ! k) = tools (S ! k) \<and>
         (tools (S ! k) = [] \<longrightarrow> tools (fst (enrich_with_tools bs session S order) ! k) = []) \<and>
         (\<exists>pre post. order = pre @ k # post \<and> k \<notin> set pre \<and> k \<notin> set post \<and>
            snd (enrich_with_tools bs session S order) =
              task_errors bs session S pre
              @ [''Failed to fetch '' @ marketplace_url (S ! k)]
              @ task_errors bs session S post)"
proof -
  let ?url = "marketplace_url (S ! k)"
  let ?msg = "''Failed to fetch '' @ ?url"
  have page: "fetch_detail_page session ?url = Inr (Some [])"
    using fetch_detail_page_served [where session = session and url = ?url, OF assms(4,5)] assms(6)
    by simp
  have task: "fetch_tools bs' session (S ! k) = (None, Some ?msg)" for bs'
    using page by (rule fetch_tools_empty_body)
  have same: "fetch_tools bs session' (S ! k) = fetch_tools bs session (S ! k)"
    if "session' ?url = Inl (RequestException m)" for session' m
    using fetch_tools_failed [OF fetch_detail_page_transport
            [where session = session' and url = ?url, OF that]] task
    by simp
  have k_in: "k \<in> set order" using assms(2,3) by simp
  have keep: "tools (fst (enrich_with_tools bs session S order) ! k) = tools (S ! k)"
    using enrich_task [OF assms(1) k_in assms(3) task] by simp
  from k_in obtain pre post where ord: "order = pre @ k # post" by (meson split_list)
  with assms(1) have nk: "k \<notin> set pre" "k \<notin> set post" by auto
  have "snd (enrich_with_tools bs session S order) =
          task_errors bs session S pre @ [?msg] @ task_errors bs session S post"
    by (simp add: enrich_errors ord task_errors_def map_filter_append task)
  with ord nk have errs: "\<exists>pre post. order = pre @ k # post \<and> k \<notin> set pre \<and> k \<notin> set post \<and>
            snd (enrich_with_tools bs session S order) =
              task_errors bs session S pre @ [?msg] @ task_errors bs session S post"
    by blast
  from page task same keep errs show ?thesis by auto
qed

theorem empty_body_is_failure_witness:
  "fetch_detail_page blank_session ''site/b'' = Inr (Some []) \<and>
   fetch_tools (fixed_parser tool_page) blank_session (entry ''b'') =
     (None, Some ''Failed to fetch site/b'') \<and>
   fetch_tools (fixed_parser tool_page) one_down_session (entry ''b'') =
     fetch_tools (fixed_parser tool_page) blank_session (entry ''b'') \<and>
   tools (fst (enrich_with_tools (fixed_parser tool_page) blank_session
                 [entry ''a'', entry ''b''] [0, 1]) ! 1) = [] \<and>
   snd (enrich_with_tools (fixed_parser tool_page) blank_session
          [entry ''a'', entry ''b''] [0, 1]) = [''Failed to fetch site/b'']"
proof -
  let ?S = "[entry ''a'', entry ''b'']"
  let ?bs = "fixed_parser tool_page"
  have h1: "distinct [0, 1 :: nat]" by simp
  have h2: "set [0, 1 :: nat] = {..<length ?S}" by auto
  have h3: "(1 :: nat) < length ?S" by simp
  have h4: "blank_session (marketplace_url (?S ! 1)) = Inr (page_response 200 [])"
    by (simp add: blank_session_def entry_def mocker_def)
  have h5: "raise_for_status (page_response 200 []) = None"
    by (simp add: raise_for_status_def page_response_def)
  have h6: "resp_text (page_response 200 []) = []"
    by (simp add: page_response_def)
  note inst = empty_body_is_failure
    [where order = "[0, 1]" and S = ?S and k = 1 and session = blank_session and bs = ?bs,
      OF h1 h2 h3 h4 h5 h6]
  have url: "marketplace_url (entry ''b'') = ''site/b''"
    by (simp add: entry_def)
  from inst have a: "fetch_detail_page blank_session ''site/b'' = Inr (Some [])"
    by (simp add: url)
  from inst have b: "fetch_tools ?bs blank_session (entry ''b'') =
      (None, Some ''Failed to fetch site/b'')"
    by (simp add: url)
  have "one_down_session ''site/b'' = Inr (page_response 404 [])"
    by (simp add: one_down_session_def mocker_def)
  then have "fetch_tools ?bs one_down_session (entry ''b'') = (None, Some ''Failed to fetch site/b'')"
    by (simp add: fetch_tools_def entry_def fetch_detail_page_def raise_for_status_def
          page_response_def)
  with b have c: "fetch_tools ?bs one_down_session (entry ''b'') =
      fetch_tools ?bs blank_session (entry ''b'')"
    by simp
  from inst have d: "tools (fst (enrich_with_tools ?bs blank_session ?S [0, 1]) ! 1) = []"
    by (simp add: entry_def)
  from inst obtain pre post where ord: "[0, 1 :: nat] = pre @ 1 # post"
    and nk: "1 \<notin> set pre" "1 \<notin> set post"
    and errs: "snd (enrich_with_tools ?bs blank_session ?S [0, 1]) =
       task_errors ?bs blank_session ?S pre @ [''Failed to fetch '' @ marketplace_url (?S ! 1)]
       @ task_errors ?bs blank_session ?S post"
    by blast
  from ord nk have "pre = [0] \<and> post = []"
    by (cases pre; cases post) (auto simp: Cons_eq_append_conv)
  moreover have "task_errors ?bs blank_session ?S [0] = []"
    by (simp add: task_errors_def fetch_tools_def entry_def blank_session_def fetch_detail_page_def
          mocker_def raise_for_status_def page_response_def)
  moreover have "task_errors ?bs blank_session ?S [] = []"
    by (simp add: task_errors_def)
  ultimately have e: "snd (enrich_with_tools ?bs blank_session ?S [0, 1]) =
      [''Failed to fetch site/b'']"
    using errs by (simp add: entry_def)
  from a b c d e show ?thesis by blast
qed

end
